theory Spec2Isabelle
  imports Main "HOL-Library.FSet" "HOL-Library.Char_ord" "HOL-Library.List_Lexorder"
begin

section \<open>Data model of \<open>backend/websocket.py\<close>\<close>

text \<open>
  A \<open>WebSocket\<close> object is an opaque handle compared by identity; it is modelled by a
  natural number naming the object.  The values that reach the registry as dictionary keys
  are Python values taken from decoded JSON: \<open>None\<close>, integers (\<open>True\<close> and \<open>False\<close> hash
  and compare as \<open>1\<close> and \<open>0\<close>) and strings.  JSON numbers with a fraction are left out of
  the model.
\<close>

type_synonym websocket = nat

datatype pykey = KNone | KInt int | KStr string

datatype json =
    JNull
  | JBool bool
  | JInt int
  | JStr string
  | JArr "json list"
  | JObj "(string \<times> json) list"

datatype error = KeyError | TypeError | AttributeError | AcceptFailed

text \<open>
  Python sets are iterated in an order the language leaves open.  The model iterates a
  set in ascending order of its elements, which needs a linear order on keys; every
  property below is about the sets and the final state, not about the order.
\<close>

instantiation pykey :: linorder
begin

fun less_eq_pykey :: "pykey \<Rightarrow> pykey \<Rightarrow> bool" where
  "less_eq_pykey KNone k = True"
| "less_eq_pykey (KInt a) KNone = False"
| "less_eq_pykey (KInt a) (KInt b) = (a \<le> b)"
| "less_eq_pykey (KInt a) (KStr t) = True"
| "less_eq_pykey (KStr s) (KStr t) = (s \<le> t)"
| "less_eq_pykey (KStr s) k = False"

definition less_pykey :: "pykey \<Rightarrow> pykey \<Rightarrow> bool" where
  "less_pykey x y = (x \<le> y \<and> \<not> y \<le> x)"

instance
proof
  fix x y z :: pykey
  show "(x < y) = (x \<le> y \<and> \<not> y \<le> x)"
    by (simp add: less_pykey_def)
  show "x \<le> x"
    by (cases x) simp_all
  show "x \<le> y \<Longrightarrow> y \<le> z \<Longrightarrow> x \<le> z"
    by (cases x; cases y; cases z) auto
  show "x \<le> y \<Longrightarrow> y \<le> x \<Longrightarrow> x = y"
    by (cases x; cases y) auto
  show "x \<le> y \<or> y \<le> x"
    by (cases x; cases y) auto
qed

end

text \<open>The three fields set up by \<open>ConnectionManager.__init__\<close>.\<close>

record manager =
  active_connections :: "pykey \<rightharpoonup> websocket fset"
  subscriptions :: "websocket \<rightharpoonup> pykey fset"
  all_connections :: "websocket fset"

definition new_manager :: manager where
  "new_manager =
     \<lparr>active_connections = Map.empty, subscriptions = Map.empty, all_connections = {||}\<rparr>"

subsection \<open>Exceptions and dictionary access\<close>

text \<open>
  A call either raises (\<open>Inl\<close>) or returns (\<open>Inr\<close>).  \<open>d[k]\<close> and \<open>del d[k]\<close> raise
  \<open>KeyError\<close> on a missing key.
\<close>

definition bindE :: "error + 'a \<Rightarrow> ('a \<Rightarrow> error + 'b) \<Rightarrow> error + 'b" where
  "bindE r f = (case r of Inl e \<Rightarrow> Inl e | Inr x \<Rightarrow> f x)"

definition getitem :: "('k \<rightharpoonup> 'v) \<Rightarrow> 'k \<Rightarrow> error + 'v" where
  "getitem d k = (case d k of None \<Rightarrow> Inl KeyError | Some v \<Rightarrow> Inr v)"

definition delitem :: "('k \<rightharpoonup> 'v) \<Rightarrow> 'k \<Rightarrow> error + ('k \<rightharpoonup> 'v)" where
  "delitem d k = (case d k of None \<Rightarrow> Inl KeyError | Some v \<Rightarrow> Inr (d(k := None)))"

section \<open>The registry: \<open>connect\<close>, \<open>subscribe\<close>, \<open>unsubscribe\<close>, \<open>disconnect\<close>\<close>

text \<open>
  \<open>connect\<close> awaits \<open>websocket.accept()\<close> first; the flag says whether that call returns.
  When it raises, nothing has been registered yet.
\<close>

definition connect :: "manager \<Rightarrow> websocket \<Rightarrow> bool \<Rightarrow> error + manager" where
  "connect m ws accepted =
     (if \<not> accepted then Inl AcceptFailed
      else Inr (m\<lparr>subscriptions := (subscriptions m)(ws \<mapsto> {||}),
                 all_connections := finsert ws (all_connections m)\<rparr>))"

definition subscribe :: "manager \<Rightarrow> websocket \<Rightarrow> pykey \<Rightarrow> error + manager" where
  "subscribe m ws poll_id =
     (let ac0 = (if poll_id \<notin> dom (active_connections m)
                 then (active_connections m)(poll_id \<mapsto> {||})
                 else active_connections m)
      in bindE (getitem ac0 poll_id) (\<lambda>s.
           let ac1 = ac0(poll_id \<mapsto> finsert ws s)
           in bindE (if ws \<in> dom (subscriptions m)
                     then bindE (getitem (subscriptions m) ws) (\<lambda>ps.
                            Inr ((subscriptions m)(ws \<mapsto> finsert poll_id ps)))
                     else Inr (subscriptions m)) (\<lambda>sb.
                Inr (m\<lparr>active_connections := ac1, subscriptions := sb\<rparr>))))"

definition unsubscribe :: "manager \<Rightarrow> websocket \<Rightarrow> pykey \<Rightarrow> error + manager" where
  "unsubscribe m ws poll_id =
     bindE (if poll_id \<in> dom (active_connections m)
            then bindE (getitem (active_connections m) poll_id) (\<lambda>s.
                   let ac1 = (active_connections m)(poll_id \<mapsto> s |-| {|ws|})
                   in bindE (getitem ac1 poll_id) (\<lambda>s1.
                        if s1 = {||} then delitem ac1 poll_id else Inr ac1))
            else Inr (active_connections m)) (\<lambda>ac.
       bindE (if ws \<in> dom (subscriptions m)
              then bindE (getitem (subscriptions m) ws) (\<lambda>ps.
                     Inr ((subscriptions m)(ws \<mapsto> ps |-| {|poll_id|})))
              else Inr (subscriptions m)) (\<lambda>sb.
         Inr (m\<lparr>active_connections := ac, subscriptions := sb\<rparr>)))"

text \<open>The loop \<open>for poll_id in poll_ids: self.unsubscribe(websocket, poll_id)\<close>.\<close>

fun unsubscribe_each :: "manager \<Rightarrow> websocket \<Rightarrow> pykey list \<Rightarrow> error + manager" where
  "unsubscribe_each m ws [] = Inr m"
| "unsubscribe_each m ws (poll_id # rest) =
     bindE (unsubscribe m ws poll_id) (\<lambda>m1. unsubscribe_each m1 ws rest)"

definition disconnect :: "manager \<Rightarrow> websocket \<Rightarrow> error + manager" where
  "disconnect m ws =
     bindE (if ws \<in> dom (subscriptions m)
            then bindE (getitem (subscriptions m) ws) (\<lambda>poll_ids.
                 bindE (unsubscribe_each m ws (sorted_list_of_fset poll_ids)) (\<lambda>m1.
                 bindE (delitem (subscriptions m1) ws) (\<lambda>sb.
                   Inr (m1\<lparr>subscriptions := sb\<rparr>))))
            else Inr m) (\<lambda>m2.
       Inr (m2\<lparr>all_connections := all_connections m2 |-| {|ws|}\<rparr>))"

text \<open>
  Views used to state properties: the subscriber set of a topic (the forward index entry,
  empty when the key is missing) and the topic set of a connection (the reverse index
  entry, empty when the key is missing).
\<close>

definition subscribers_of :: "manager \<Rightarrow> pykey \<Rightarrow> websocket fset" where
  "subscribers_of m t = (case active_connections m t of None \<Rightarrow> {||} | Some s \<Rightarrow> s)"

definition topics_of :: "manager \<Rightarrow> websocket \<Rightarrow> pykey fset" where
  "topics_of m ws = (case subscriptions m ws of None \<Rightarrow> {||} | Some ps \<Rightarrow> ps)"

text \<open>
  What lines 45 to 48 of \<open>unsubscribe\<close> do to one forward index entry: the connection is
  discarded from the set, and an entry whose set became empty is deleted.
\<close>

definition discard_entry :: "websocket \<Rightarrow> websocket fset option \<Rightarrow> websocket fset option" where
  "discard_entry ws entry =
     (case entry of
        None \<Rightarrow> None
      | Some s \<Rightarrow> if s |-| {|ws|} = {||} then None else Some (s |-| {|ws|}))"


section \<open>The dispatcher: \<open>broadcast_to_poll\<close>, \<open>broadcast_to_all\<close>, \<open>send_personal_message\<close>\<close>

text \<open>
  \<open>connection.send_json(message)\<close> either returns or raises; which of the two happens is
  decided by the transport, given here as the predicate \<open>fails\<close> on connections.  Only
  exceptions that \<open>except Exception\<close> catches are considered.  Each call of \<open>send_json\<close>
  is recorded, in order, with its outcome: \<open>Sent c e\<close> when the call returned, so that
  \<open>c\<close> was handed \<open>e\<close>, and \<open>SendRaised c e\<close> when it raised.  Calls are run one after
  the other as written; tasks interleaving at an \<open>await\<close> are not modelled.
\<close>

datatype send_event = Sent websocket json | SendRaised websocket json

fun send_each ::
  "(websocket \<Rightarrow> bool) \<Rightarrow> json \<Rightarrow> websocket list \<Rightarrow> send_event list \<Rightarrow> websocket fset
     \<Rightarrow> send_event list \<times> websocket fset" where
  "send_each fails message [] log disconnected = (log, disconnected)"
| "send_each fails message (c # rest) log disconnected =
     (if fails c
      then send_each fails message rest (log @ [SendRaised c message]) (finsert c disconnected)
      else send_each fails message rest (log @ [Sent c message]) disconnected)"

text \<open>The loop \<open>for connection in disconnected: self.disconnect(connection)\<close>.\<close>

fun disconnect_each :: "manager \<Rightarrow> websocket list \<Rightarrow> error + manager" where
  "disconnect_each m [] = Inr m"
| "disconnect_each m (c # rest) = bindE (disconnect m c) (\<lambda>m1. disconnect_each m1 rest)"

definition broadcast_to_poll ::
  "(websocket \<Rightarrow> bool) \<Rightarrow> manager \<Rightarrow> pykey \<Rightarrow> json \<Rightarrow> error + manager \<times> send_event list" where
  "broadcast_to_poll fails m poll_id message =
     (if poll_id \<in> dom (active_connections m)
      then bindE (getitem (active_connections m) poll_id) (\<lambda>s.
             case send_each fails message (sorted_list_of_fset s) [] {||} of
               (log, disconnected) \<Rightarrow>
                 bindE (disconnect_each m (sorted_list_of_fset disconnected)) (\<lambda>m1.
                   Inr (m1, log)))
      else Inr (m, []))"

definition broadcast_to_all ::
  "(websocket \<Rightarrow> bool) \<Rightarrow> manager \<Rightarrow> json \<Rightarrow> error + manager \<times> send_event list" where
  "broadcast_to_all fails m message =
     (case send_each fails message (sorted_list_of_fset (all_connections m)) [] {||} of
        (log, disconnected) \<Rightarrow>
          bindE (disconnect_each m (sorted_list_of_fset disconnected)) (\<lambda>m1.
            Inr (m1, log)))"

definition send_personal_message ::
  "(websocket \<Rightarrow> bool) \<Rightarrow> manager \<Rightarrow> json \<Rightarrow> websocket \<Rightarrow> error + manager \<times> send_event list" where
  "send_personal_message fails m message ws =
     (if fails ws
      then bindE (disconnect m ws) (\<lambda>m1. Inr (m1, [SendRaised ws message]))
      else Inr (m, [Sent ws message]))"

text \<open>What a log says: who was sent to, and who received.\<close>

definition attempted :: "send_event list \<Rightarrow> (websocket \<times> json) set" where
  "attempted log = {(c, e). Sent c e \<in> set log \<or> SendRaised c e \<in> set log}"

definition received :: "send_event list \<Rightarrow> (websocket \<times> json) set" where
  "received log = {(c, e). Sent c e \<in> set log}"

section \<open>The command handler and the domain event producers\<close>

text \<open>
  \<open>data.get(k)\<close> on a dictionary gives \<open>None\<close> for a missing key; JSON \<open>null\<close> decodes to
  \<open>None\<close> as well.  On a value that is not a dictionary the attribute \<open>get\<close> does not exist.
\<close>

definition dict_get :: "(string \<times> json) list \<Rightarrow> string \<Rightarrow> json" where
  "dict_get kv k = (case map_of kv k of None \<Rightarrow> JNull | Some v \<Rightarrow> v)"

fun truthy :: "json \<Rightarrow> bool" where
  "truthy JNull = False"
| "truthy (JBool b) = b"
| "truthy (JInt n) = (n \<noteq> 0)"
| "truthy (JStr s) = (s \<noteq> [])"
| "truthy (JArr xs) = (xs \<noteq> [])"
| "truthy (JObj kv) = (kv \<noteq> [])"

text \<open>Using a value as a dictionary key hashes it; lists and dictionaries are unhashable.\<close>

fun hash_key :: "json \<Rightarrow> error + pykey" where
  "hash_key JNull = Inr KNone"
| "hash_key (JBool b) = Inr (KInt (if b then 1 else 0))"
| "hash_key (JInt n) = Inr (KInt n)"
| "hash_key (JStr s) = Inr (KStr s)"
| "hash_key (JArr xs) = Inl TypeError"
| "hash_key (JObj kv) = Inl TypeError"

definition handle_websocket_message ::
  "(websocket \<Rightarrow> bool) \<Rightarrow> manager \<Rightarrow> websocket \<Rightarrow> json \<Rightarrow> error + manager \<times> send_event list" where
  "handle_websocket_message fails m ws data =
     (case data of
        JObj kv \<Rightarrow>
          (let message_type = dict_get kv ''type'' in
           if message_type = JStr ''subscribe'' then
             (let poll_id = dict_get kv ''poll_id'' in
              if truthy poll_id then
                bindE (hash_key poll_id) (\<lambda>k.
                bindE (subscribe m ws k) (\<lambda>m1.
                  send_personal_message fails m1
                    (JObj [(''type'', JStr ''subscribed''), (''poll_id'', poll_id)]) ws))
              else Inr (m, []))
           else if message_type = JStr ''unsubscribe'' then
             (let poll_id = dict_get kv ''poll_id'' in
              if truthy poll_id then
                bindE (hash_key poll_id) (\<lambda>k.
                bindE (unsubscribe m ws k) (\<lambda>m1.
                  send_personal_message fails m1
                    (JObj [(''type'', JStr ''unsubscribed''), (''poll_id'', poll_id)]) ws))
              else Inr (m, []))
           else if message_type = JStr ''ping'' then
             send_personal_message fails m (JObj [(''type'', JStr ''pong'')]) ws
           else Inr (m, []))
      | _ \<Rightarrow> Inl AttributeError)"

definition broadcast_vote_update ::
  "(websocket \<Rightarrow> bool) \<Rightarrow> manager \<Rightarrow> int \<Rightarrow> json \<Rightarrow> error + manager \<times> send_event list" where
  "broadcast_vote_update fails m poll_id vote_data =
     broadcast_to_poll fails m (KInt poll_id)
       (JObj [(''type'', JStr ''vote_update''), (''poll_id'', JInt poll_id), (''data'', vote_data)])"

definition broadcast_like_update ::
  "(websocket \<Rightarrow> bool) \<Rightarrow> manager \<Rightarrow> int \<Rightarrow> json \<Rightarrow> error + manager \<times> send_event list" where
  "broadcast_like_update fails m poll_id like_data =
     broadcast_to_poll fails m (KInt poll_id)
       (JObj [(''type'', JStr ''like_update''), (''poll_id'', JInt poll_id), (''data'', like_data)])"

text \<open>
  \<open>broadcast_poll_created\<close> first logs \<open>poll_data.get('id')\<close>, which needs \<open>poll_data\<close> to
  be a dictionary.
\<close>

definition poll_created_event :: "json \<Rightarrow> json" where
  "poll_created_event poll_data = JObj [(''type'', JStr ''poll_created''), (''data'', poll_data)]"

definition poll_deleted_event :: "int \<Rightarrow> json" where
  "poll_deleted_event poll_id = JObj [(''type'', JStr ''poll_deleted''), (''poll_id'', JInt poll_id)]"

definition broadcast_poll_created ::
  "(websocket \<Rightarrow> bool) \<Rightarrow> manager \<Rightarrow> json \<Rightarrow> error + manager \<times> send_event list" where
  "broadcast_poll_created fails m poll_data =
     (case poll_data of
        JObj kv \<Rightarrow> broadcast_to_all fails m (poll_created_event poll_data)
      | _ \<Rightarrow> Inl AttributeError)"

definition broadcast_poll_deleted ::
  "(websocket \<Rightarrow> bool) \<Rightarrow> manager \<Rightarrow> int \<Rightarrow> error + manager \<times> send_event list" where
  "broadcast_poll_deleted fails m poll_id = broadcast_to_all fails m (poll_deleted_event poll_id)"

section \<open>The receive loop of \<open>websocket_endpoint\<close> (\<open>backend/main.py\<close>)\<close>

text \<open>
  What \<open>await websocket.receive_json()\<close> does next: it returns a decoded value, raises
  \<open>WebSocketDisconnect\<close>, or raises something else (text that is not JSON, for one).
  The loop runs on the inputs that have arrived so far.  It ends, with the connection
  closed, in one of the two \<open>except\<close> branches; otherwise it is still waiting and the
  connection is open.  Every exception of the handler is raised before the handler has
  changed the registry, so the \<open>except\<close> branch starts from the state before the call.
\<close>

datatype inbound = Frame json | ReceiveRaised | ClientDisconnect

datatype channel = Open | Closed

fun receive_loop ::
  "(websocket \<Rightarrow> bool) \<Rightarrow> manager \<Rightarrow> websocket \<Rightarrow> inbound list
     \<Rightarrow> error + manager \<times> send_event list \<times> channel" where
  "receive_loop fails m ws [] = Inr (m, [], Open)"
| "receive_loop fails m ws (Frame data # rest) =
     (case handle_websocket_message fails m ws data of
        Inl e \<Rightarrow> bindE (disconnect m ws) (\<lambda>m1. Inr (m1, [], Closed))
      | Inr (m1, log) \<Rightarrow>
          (case receive_loop fails m1 ws rest of
             Inl e \<Rightarrow> Inl e
           | Inr (m2, log2, st) \<Rightarrow> Inr (m2, log @ log2, st)))"
| "receive_loop fails m ws (ReceiveRaised # rest) =
     bindE (disconnect m ws) (\<lambda>m1. Inr (m1, [], Closed))"
| "receive_loop fails m ws (ClientDisconnect # rest) =
     bindE (disconnect m ws) (\<lambda>m1. Inr (m1, [], Closed))"

definition websocket_endpoint ::
  "(websocket \<Rightarrow> bool) \<Rightarrow> manager \<Rightarrow> websocket \<Rightarrow> bool \<Rightarrow> inbound list
     \<Rightarrow> error + manager \<times> send_event list \<times> channel" where
  "websocket_endpoint fails m ws accepted inputs =
     bindE (connect m ws accepted) (\<lambda>m1. receive_loop fails m1 ws inputs)"

section \<open>Sequences of registry calls\<close>

text \<open>
  A call that raises leaves the state as it was when the exception was raised; the only
  call that can raise is \<open>connect\<close>, before it registers anything.
\<close>

datatype call =
    Connect websocket bool
  | Disconnect websocket
  | Subscribe websocket pykey
  | Unsubscribe websocket pykey

fun perform :: "manager \<Rightarrow> call \<Rightarrow> error + manager" where
  "perform m (Connect ws accepted) = connect m ws accepted"
| "perform m (Disconnect ws) = disconnect m ws"
| "perform m (Subscribe ws poll_id) = subscribe m ws poll_id"
| "perform m (Unsubscribe ws poll_id) = unsubscribe m ws poll_id"

definition after_call :: "manager \<Rightarrow> call \<Rightarrow> manager" where
  "after_call m c = (case perform m c of Inl e \<Rightarrow> m | Inr m1 \<Rightarrow> m1)"

fun run_calls :: "manager \<Rightarrow> call list \<Rightarrow> manager" where
  "run_calls m [] = m"
| "run_calls m (c # cs) = run_calls (after_call m c) cs"

fun subscription_call :: "call \<Rightarrow> bool" where
  "subscription_call (Subscribe ws poll_id) = True"
| "subscription_call (Unsubscribe ws poll_id) = True"
| "subscription_call c = False"

text \<open>Transports used in examples: no send raises; only the sends to one connection raise.\<close>

definition no_failure :: "websocket \<Rightarrow> bool" where
  "no_failure ws = False"

definition only_fails :: "websocket \<Rightarrow> websocket \<Rightarrow> bool" where
  "only_fails c ws = (ws = c)"

text \<open>
  States and inputs used in examples.  In \<open>one_subscriber\<close> connection 1 is connected and
  subscribed to poll 7.  In \<open>stale_subscriber\<close> connection 1 connected, was disconnected
  (as after a failed send), and a \<open>subscribe\<close> for poll 7 arrived from it afterwards;
  connection 2 is connected and subscribed to poll 7.
\<close>

definition one_subscriber :: manager where
  "one_subscriber = run_calls new_manager [Connect 1 True, Subscribe 1 (KInt 7)]"

definition stale_subscriber :: manager where
  "stale_subscriber =
     run_calls new_manager
       [Connect 1 True, Disconnect 1, Subscribe 1 (KInt 7), Connect 2 True, Subscribe 2 (KInt 7)]"

definition subscribe_frame :: "int \<Rightarrow> inbound" where
  "subscribe_frame n = Frame (JObj [(''type'', JStr ''subscribe''), (''poll_id'', JInt n)])"

section \<open>What the registry operations compute\<close>

text \<open>
  None of \<open>subscribe\<close>, \<open>unsubscribe\<close> and \<open>disconnect\<close> raises: every dictionary
  access is behind a membership test that still holds when the access is made.  The
  equations below give the state each of them returns.
\<close>

lemma bindE_Inl [simp]: "bindE (Inl e) f = Inl e"
  by (simp add: bindE_def)

lemma bindE_Inr [simp]: "bindE (Inr x) f = f x"
  by (simp add: bindE_def)

lemma subscribe_eq:
  "subscribe m ws p =
     Inr (m\<lparr>active_connections := (active_connections m)(p \<mapsto> finsert ws (subscribers_of m p)),
            subscriptions := (case subscriptions m ws of
                                None \<Rightarrow> subscriptions m
                              | Some ps \<Rightarrow> (subscriptions m)(ws \<mapsto> finsert p ps))\<rparr>)"
  by (auto simp: subscribe_def getitem_def subscribers_of_def Let_def dom_def split: option.splits)

lemma unsubscribe_eq:
  "unsubscribe m ws p =
     Inr (m\<lparr>active_connections := (active_connections m)(p := discard_entry ws (active_connections m p)),
            subscriptions := (case subscriptions m ws of
                                None \<Rightarrow> subscriptions m
                              | Some ps \<Rightarrow> (subscriptions m)(ws \<mapsto> ps |-| {|p|}))\<rparr>)"
  by (auto simp: unsubscribe_def getitem_def delitem_def discard_entry_def Let_def dom_def
           split: option.splits)

lemma discard_entry_idem: "discard_entry ws (discard_entry ws x) = discard_entry ws x"
  by (auto simp: discard_entry_def split: option.splits)

lemma unsubscribe_each_eq:
  "unsubscribe_each m ws ps =
     Inr (m\<lparr>active_connections :=
              (\<lambda>t. if t \<in> set ps then discard_entry ws (active_connections m t)
                   else active_connections m t),
            subscriptions := (case subscriptions m ws of
                                None \<Rightarrow> subscriptions m
                              | Some s \<Rightarrow> (subscriptions m)(ws \<mapsto> s |-| fset_of_list ps))\<rparr>)"
proof (induction ps arbitrary: m)
  case Nil
  show ?case by (cases "subscriptions m ws") (simp_all add: fun_upd_idem)
next
  case (Cons p ps)
  show ?case
  proof (cases "subscriptions m ws")
    case None
    then show ?thesis
      by (simp add: unsubscribe_eq Cons.IH)
         (rule manager.equality; auto simp: fun_eq_iff discard_entry_idem)
  next
    case (Some a)
    then show ?thesis
      by (simp add: unsubscribe_eq Cons.IH)
         (rule manager.equality; auto simp: fun_eq_iff discard_entry_idem)
  qed
qed

lemma disconnect_eq:
  "disconnect m ws =
     Inr (m\<lparr>active_connections :=
              (\<lambda>t. if t |\<in>| topics_of m ws then discard_entry ws (active_connections m t)
                   else active_connections m t),
            subscriptions := (subscriptions m)(ws := None),
            all_connections := all_connections m |-| {|ws|}\<rparr>)"
  by (cases "subscriptions m ws")
     (auto simp: disconnect_def getitem_def delitem_def unsubscribe_each_eq topics_of_def
                 dom_def fun_eq_iff)

lemma send_each_eq:
  "send_each fails e cs log dis =
     (log @ map (\<lambda>c. if fails c then SendRaised c e else Sent c e) cs,
      dis |\<union>| fset_of_list (filter fails cs))"
  by (induction cs arbitrary: log dis) auto

subsection \<open>Disconnecting several connections, and the broadcasts\<close>

lemma subscribers_discard_entry:
  "(case discard_entry ws x of None \<Rightarrow> {||} | Some s \<Rightarrow> s) =
   (case x of None \<Rightarrow> {||} | Some s \<Rightarrow> s) |-| {|ws|}"
  by (auto simp: discard_entry_def split: option.splits)

lemma disconnect_subscribers_of:
  assumes "disconnect m ws = Inr m'"
  shows "subscribers_of m' t =
           (if t |\<in>| topics_of m ws then subscribers_of m t |-| {|ws|} else subscribers_of m t)"
  using assms by (auto simp: disconnect_eq subscribers_of_def subscribers_discard_entry)

lemma disconnect_subscriptions:
  assumes "disconnect m ws = Inr m'"
  shows "subscriptions m' = (subscriptions m)(ws := None)"
  using assms by (auto simp: disconnect_eq)

lemma disconnect_topics_of:
  assumes "disconnect m ws = Inr m'"
  shows "topics_of m' w = (if w = ws then {||} else topics_of m w)"
  using assms by (auto simp: disconnect_eq topics_of_def)

lemma disconnect_all_connections:
  assumes "disconnect m ws = Inr m'"
  shows "all_connections m' = all_connections m |-| {|ws|}"
  using assms by (auto simp: disconnect_eq)

lemma disconnect_returns: "\<exists>m'. disconnect m ws = Inr m'"
  by (simp add: disconnect_eq)

lemma disconnect_each_returns: "\<exists>m'. disconnect_each m cs = Inr m'"
proof (induction cs arbitrary: m)
  case Nil
  show ?case by simp
next
  case (Cons c cs)
  obtain m1 where "disconnect m c = Inr m1"
    using disconnect_returns by blast
  with Cons.IH [of m1] show ?case by simp
qed

lemma disconnect_each_subscribers_of:
  assumes "disconnect_each m cs = Inr m'"
  shows "c |\<in>| subscribers_of m' t \<longleftrightarrow>
           c |\<in>| subscribers_of m t \<and> \<not> (c \<in> set cs \<and> t |\<in>| topics_of m c)"
  using assms
proof (induction cs arbitrary: m)
  case Nil
  then show ?case by simp
next
  case (Cons d ds)
  obtain m1 where m1: "disconnect m d = Inr m1"
    using disconnect_returns by blast
  with Cons.prems have rest: "disconnect_each m1 ds = Inr m'" by simp
  show ?case
    unfolding Cons.IH [OF rest] disconnect_subscribers_of [OF m1] disconnect_topics_of [OF m1]
    by auto
qed

lemma disconnect_each_subscriptions:
  assumes "disconnect_each m cs = Inr m'"
  shows "subscriptions m' w = (if w \<in> set cs then None else subscriptions m w)"
  using assms
proof (induction cs arbitrary: m)
  case Nil
  then show ?case by simp
next
  case (Cons d ds)
  obtain m1 where m1: "disconnect m d = Inr m1"
    using disconnect_returns by blast
  with Cons.prems have rest: "disconnect_each m1 ds = Inr m'" by simp
  show ?case
    unfolding Cons.IH [OF rest] disconnect_subscriptions [OF m1]
    by auto
qed

lemma disconnect_each_all_connections:
  assumes "disconnect_each m cs = Inr m'"
  shows "all_connections m' = all_connections m |-| fset_of_list cs"
  using assms
proof (induction cs arbitrary: m)
  case Nil
  then show ?case by simp
next
  case (Cons d ds)
  obtain m1 where m1: "disconnect m d = Inr m1"
    using disconnect_returns by blast
  with Cons.prems have rest: "disconnect_each m1 ds = Inr m'" by simp
  show ?case
    unfolding Cons.IH [OF rest] disconnect_all_connections [OF m1]
    by auto
qed

lemma failed_sends:
  "fset_of_list (filter fails (sorted_list_of_fset s)) = ffilter fails s"
  by (rule fset_eqI) (simp add: fset_of_list_elem)

lemma broadcast_to_poll_eq:
  "broadcast_to_poll fails m t e =
     (case active_connections m t of
        None \<Rightarrow> Inr (m, [])
      | Some s \<Rightarrow>
          bindE (disconnect_each m (sorted_list_of_fset (ffilter fails s))) (\<lambda>m1.
            Inr (m1, map (\<lambda>c. if fails c then SendRaised c e else Sent c e)
                       (sorted_list_of_fset s))))"
  by (auto simp: broadcast_to_poll_def getitem_def send_each_eq failed_sends dom_def
           split: option.splits)

lemma broadcast_to_all_eq:
  "broadcast_to_all fails m e =
     bindE (disconnect_each m (sorted_list_of_fset (ffilter fails (all_connections m)))) (\<lambda>m1.
       Inr (m1, map (\<lambda>c. if fails c then SendRaised c e else Sent c e)
                  (sorted_list_of_fset (all_connections m))))"
  by (simp add: broadcast_to_all_def send_each_eq failed_sends)

lemma attempted_outcomes:
  "attempted (map (\<lambda>c. if fails c then SendRaised c e else Sent c e) cs) = set cs \<times> {e}"
  by (auto simp: attempted_def)

lemma received_outcomes:
  "received (map (\<lambda>c. if fails c then SendRaised c e else Sent c e) cs) =
     {c \<in> set cs. \<not> fails c} \<times> {e}"
  by (auto simp: received_def)

section \<open>Broadcasts\<close>

text \<open>
  A broadcast to a topic never raises, and its log is one send per subscriber of the
  snapshot, each with the outcome the transport gives it.
\<close>

lemma broadcast_to_poll_log:
  "\<exists>m'. broadcast_to_poll fails m t e =
          Inr (m', map (\<lambda>c. if fails c then SendRaised c e else Sent c e)
                     (sorted_list_of_fset (subscribers_of m t)))"
proof (cases "active_connections m t")
  case None
  then show ?thesis
    by (simp add: broadcast_to_poll_eq subscribers_of_def sorted_list_of_fset.rep_eq
                  sorted_list_of_set_empty)
next
  case (Some s)
  obtain m1 where "disconnect_each m (sorted_list_of_fset (ffilter fails s)) = Inr m1"
    using disconnect_each_returns by blast
  with Some show ?thesis by (simp add: broadcast_to_poll_eq subscribers_of_def)
qed

text \<open>
  Claim C1.  For every topic \<open>t\<close> and event \<open>e\<close>, \<open>broadcast_to_poll\<close> returns without
  raising; \<open>send_json(e)\<close> is called on exactly the connections that are in the subscriber
  set of \<open>t\<close> when the call begins, and on no other connection; the connections that
  receive \<open>e\<close> are exactly those subscribers whose send does not raise (all of them when
  no send raises).  When \<open>t\<close> has no entry in the forward index, nothing is sent and the
  registry is left as it was.
\<close>

theorem broadcast_to_poll_reaches_subscribers:
  "\<exists>m' log. broadcast_to_poll fails m t e = Inr (m', log)
      \<and> attempted log = fset (subscribers_of m t) \<times> {e}
      \<and> received log = {c \<in> fset (subscribers_of m t). \<not> fails c} \<times> {e}
      \<and> (active_connections m t = None \<longrightarrow> m' = m \<and> log = [])"
proof (cases "active_connections m t")
  case None
  then show ?thesis
    by (simp add: broadcast_to_poll_eq subscribers_of_def attempted_def received_def)
next
  case (Some s)
  obtain m1 where "disconnect_each m (sorted_list_of_fset (ffilter fails s)) = Inr m1"
    using disconnect_each_returns by blast
  with Some show ?thesis
    by (simp add: broadcast_to_poll_eq subscribers_of_def attempted_outcomes received_outcomes)
qed

text \<open>
  The scenario of the specification: a client subscribes to poll 7 and disconnects without
  unsubscribing; the entry of poll 7 is gone, and a later \<open>vote_update\<close> is sent to nobody.
\<close>

theorem broadcast_to_poll_reaches_subscribers_witness:
  "active_connections (run_calls new_manager [Connect 1 True, Subscribe 1 (KInt 7), Disconnect 1])
       (KInt 7) = None
   \<and> broadcast_vote_update no_failure
       (run_calls new_manager [Connect 1 True, Subscribe 1 (KInt 7), Disconnect 1]) 7 JNull
     = Inr (run_calls new_manager [Connect 1 True, Subscribe 1 (KInt 7), Disconnect 1], [])"
proof -
  have h: "active_connections
             (run_calls new_manager [Connect 1 True, Subscribe 1 (KInt 7), Disconnect 1])
             (KInt 7) = None"
    by (simp add: after_call_def connect_def subscribe_eq disconnect_eq new_manager_def
                  topics_of_def discard_entry_def subscribers_of_def)
  show ?thesis
    using h broadcast_to_poll_reaches_subscribers
      [of no_failure "run_calls new_manager [Connect 1 True, Subscribe 1 (KInt 7), Disconnect 1]"
          "KInt 7"
          "JObj [(''type'', JStr ''vote_update''), (''poll_id'', JInt 7), (''data'', JNull)]"]
    by (auto simp: broadcast_vote_update_def)
qed

text \<open>
  Claim C5.  In every state of the registry, \<open>broadcast_poll_created\<close> and
  \<open>broadcast_poll_deleted\<close> return without raising and send their event to exactly the
  connections in \<open>all_connections\<close>, whatever the two subscription indices contain; every
  connected client whose send does not raise receives it.
\<close>

theorem global_broadcast_reaches_all_connections:
  "(\<exists>m' log. broadcast_poll_created fails m (JObj kv) = Inr (m', log)
       \<and> attempted log = fset (all_connections m) \<times> {poll_created_event (JObj kv)}
       \<and> received log = {c \<in> fset (all_connections m). \<not> fails c} \<times> {poll_created_event (JObj kv)})
   \<and> (\<exists>m' log. broadcast_poll_deleted fails m n = Inr (m', log)
       \<and> attempted log = fset (all_connections m) \<times> {poll_deleted_event n}
       \<and> received log = {c \<in> fset (all_connections m). \<not> fails c} \<times> {poll_deleted_event n})"
proof -
  obtain m1 where
    "disconnect_each m (sorted_list_of_fset (ffilter fails (all_connections m))) = Inr m1"
    using disconnect_each_returns by blast
  then show ?thesis
    by (simp add: broadcast_poll_created_def broadcast_poll_deleted_def broadcast_to_all_eq
                  attempted_outcomes received_outcomes)
qed

text \<open>
  Claim C10.  For a websocket \<open>w\<close> with no entry in \<open>subscriptions\<close> and any topic \<open>t\<close>,
  \<open>subscribe(w, t)\<close> adds \<open>w\<close> to \<open>active_connections[t]\<close> and leaves \<open>subscriptions\<close>
  unchanged; a following \<open>broadcast_to_poll(t, e)\<close> sends \<open>e\<close> to \<open>w\<close>, which receives it
  unless its send raises.
\<close>

theorem subscribe_without_entry_still_receives:
  assumes "subscriptions m w = None"
  shows "\<exists>m1. subscribe m w t = Inr m1
           \<and> active_connections m1 t = Some (finsert w (subscribers_of m t))
           \<and> subscriptions m1 = subscriptions m
           \<and> (\<exists>m2 log. broadcast_to_poll fails m1 t e = Inr (m2, log)
                \<and> (w, e) \<in> attempted log
                \<and> ((w, e) \<in> received log \<longleftrightarrow> \<not> fails w))"
proof -
  define m1 where "m1 = m\<lparr>active_connections :=
                           (active_connections m)(t \<mapsto> finsert w (subscribers_of m t))\<rparr>"
  have s: "subscribe m w t = Inr m1"
    using assms by (simp add: subscribe_eq m1_def)
  have sub: "subscribers_of m1 t = finsert w (subscribers_of m t)"
    by (simp add: m1_def subscribers_of_def)
  define log where
    "log = map (\<lambda>c. if fails c then SendRaised c e else Sent c e)
               (sorted_list_of_fset (subscribers_of m1 t))"
  obtain m2 where b: "broadcast_to_poll fails m1 t e = Inr (m2, log)"
    unfolding log_def using broadcast_to_poll_log [of fails m1 t e] by blast
  have "(w, e) \<in> attempted log" "(w, e) \<in> received log \<longleftrightarrow> \<not> fails w"
    by (simp_all add: log_def attempted_outcomes received_outcomes sub)
  with s b show ?thesis
    by (simp add: m1_def)
qed

theorem subscribe_without_entry_still_receives_witness:
  "subscriptions new_manager 1 = None
   \<and> (\<exists>m1. subscribe new_manager 1 (KInt 7) = Inr m1
         \<and> active_connections m1 (KInt 7) = Some {|1|}
         \<and> subscriptions m1 = subscriptions new_manager
         \<and> (\<exists>m2 log. broadcast_to_poll no_failure m1 (KInt 7) JNull = Inr (m2, log)
               \<and> (1, JNull) \<in> received log))"
proof -
  have h: "subscriptions new_manager 1 = None"
    by (simp add: new_manager_def)
  have e: "subscribers_of new_manager (KInt 7) = {||}"
    by (simp add: subscribers_of_def new_manager_def)
  show ?thesis
    using h subscribe_without_entry_still_receives [OF h, of "KInt 7" no_failure JNull]
    by (auto simp: e no_failure_def)
qed

section \<open>Sequences of calls: invariants of the registry\<close>

lemma after_call_Connect:
  "after_call m (Connect ws True) =
     m\<lparr>subscriptions := (subscriptions m)(ws \<mapsto> {||}),
       all_connections := finsert ws (all_connections m)\<rparr>"
  "after_call m (Connect ws False) = m"
  by (simp_all add: after_call_def connect_def)

lemma after_call_Subscribe:
  "after_call m (Subscribe ws p) =
     m\<lparr>active_connections := (active_connections m)(p \<mapsto> finsert ws (subscribers_of m p)),
       subscriptions := (case subscriptions m ws of
                           None \<Rightarrow> subscriptions m
                         | Some ps \<Rightarrow> (subscriptions m)(ws \<mapsto> finsert p ps))\<rparr>"
  by (simp add: after_call_def subscribe_eq)

lemma after_call_Unsubscribe:
  "after_call m (Unsubscribe ws p) =
     m\<lparr>active_connections := (active_connections m)(p := discard_entry ws (active_connections m p)),
       subscriptions := (case subscriptions m ws of
                           None \<Rightarrow> subscriptions m
                         | Some ps \<Rightarrow> (subscriptions m)(ws \<mapsto> ps |-| {|p|}))\<rparr>"
  by (simp add: after_call_def unsubscribe_eq)

lemma after_call_Disconnect:
  "after_call m (Disconnect ws) =
     m\<lparr>active_connections :=
         (\<lambda>t. if t |\<in>| topics_of m ws then discard_entry ws (active_connections m t)
              else active_connections m t),
       subscriptions := (subscriptions m)(ws := None),
       all_connections := all_connections m |-| {|ws|}\<rparr>"
  by (simp add: after_call_def disconnect_eq)

lemmas after_call_eq =
  after_call_Connect after_call_Subscribe after_call_Unsubscribe after_call_Disconnect

lemma discard_entry_nonempty: "discard_entry ws x \<noteq> Some {||}"
  by (auto simp: discard_entry_def split: option.splits)

lemma after_call_no_empty_entry:
  assumes "\<forall>u. active_connections m u \<noteq> Some {||}"
  shows "active_connections (after_call m c) t \<noteq> Some {||}"
proof (cases c)
  case (Connect ws accepted)
  with assms show ?thesis by (cases accepted) (simp_all add: after_call_eq)
next
  case (Disconnect ws)
  with assms show ?thesis by (simp add: after_call_eq discard_entry_nonempty)
next
  case (Subscribe ws p)
  with assms show ?thesis by (simp add: after_call_eq)
next
  case (Unsubscribe ws p)
  with assms show ?thesis by (simp add: after_call_eq discard_entry_nonempty)
qed

lemma run_calls_no_empty_entry:
  assumes "\<forall>u. active_connections m u \<noteq> Some {||}"
  shows "active_connections (run_calls m cs) t \<noteq> Some {||}"
  using assms
proof (induction cs arbitrary: m)
  case Nil
  then show ?case by simp
next
  case (Cons c cs)
  have "\<forall>u. active_connections (after_call m c) u \<noteq> Some {||}"
    using after_call_no_empty_entry [OF Cons.prems] by blast
  then show ?case using Cons.IH by simp
qed

lemma after_call_registered:
  assumes "w |\<in>| all_connections m \<longleftrightarrow> subscriptions m w \<noteq> None"
  shows "w |\<in>| all_connections (after_call m c) \<longleftrightarrow> subscriptions (after_call m c) w \<noteq> None"
proof (cases c)
  case (Connect ws accepted)
  with assms show ?thesis by (cases accepted) (auto simp: after_call_eq)
next
  case (Disconnect ws)
  with assms show ?thesis by (auto simp: after_call_eq)
next
  case (Subscribe ws p)
  with assms show ?thesis by (auto simp: after_call_eq split: option.splits)
next
  case (Unsubscribe ws p)
  with assms show ?thesis by (auto simp: after_call_eq split: option.splits)
qed

lemma run_calls_registered:
  assumes "w |\<in>| all_connections m \<longleftrightarrow> subscriptions m w \<noteq> None"
  shows "w |\<in>| all_connections (run_calls m cs) \<longleftrightarrow> subscriptions (run_calls m cs) w \<noteq> None"
  using assms
proof (induction cs arbitrary: m)
  case Nil
  then show ?case by simp
next
  case (Cons c cs)
  show ?case
    using Cons.IH [OF after_call_registered [OF Cons.prems]] by simp
qed

lemma after_call_edge:
  assumes "subscriptions m c \<noteq> None" and "subscription_call k"
    and "t |\<in>| topics_of m c \<longleftrightarrow> c |\<in>| subscribers_of m t"
  shows "subscriptions (after_call m k) c \<noteq> None
         \<and> (t |\<in>| topics_of (after_call m k) c \<longleftrightarrow> c |\<in>| subscribers_of (after_call m k) t)"
proof (cases k)
  case (Connect ws accepted)
  with assms show ?thesis by simp
next
  case (Disconnect ws)
  with assms show ?thesis by simp
next
  case (Subscribe ws p)
  with assms show ?thesis
    by (auto simp: after_call_eq topics_of_def subscribers_of_def split: option.splits)
next
  case (Unsubscribe ws p)
  with assms show ?thesis
    by (auto simp: after_call_eq topics_of_def subscribers_of_def subscribers_discard_entry
             split: option.splits)
qed

lemma run_calls_edge:
  assumes "subscriptions m c \<noteq> None" and "list_all subscription_call ks"
    and "t |\<in>| topics_of m c \<longleftrightarrow> c |\<in>| subscribers_of m t"
  shows "subscriptions (run_calls m ks) c \<noteq> None
         \<and> (t |\<in>| topics_of (run_calls m ks) c \<longleftrightarrow> c |\<in>| subscribers_of (run_calls m ks) t)"
  using assms
proof (induction ks arbitrary: m)
  case Nil
  then show ?case by simp
next
  case (Cons k ks)
  from Cons.prems have k: "subscription_call k" and ks: "list_all subscription_call ks"
    by simp_all
  have step: "subscriptions (after_call m k) c \<noteq> None
         \<and> (t |\<in>| topics_of (after_call m k) c \<longleftrightarrow> c |\<in>| subscribers_of (after_call m k) t)"
    using after_call_edge [OF Cons.prems(1) k Cons.prems(3)] .
  show ?case
    using Cons.IH [of "after_call m k"] step ks by simp
qed

lemma one_subscriber_eq:
  "one_subscriber =
     \<lparr>active_connections = [KInt 7 \<mapsto> {|1|}], subscriptions = [1 \<mapsto> {|KInt 7|}],
      all_connections = {|1|}\<rparr>"
  by (simp add: one_subscriber_def after_call_eq new_manager_def subscribers_of_def)

text \<open>
  Claim C8.  Starting from a registry without empty topic entries (the new registry is
  one), no sequence of \<open>connect\<close>, \<open>subscribe\<close>, \<open>unsubscribe\<close> and \<open>disconnect\<close> calls
  leaves a topic in the forward index with an empty subscriber set; and when
  \<open>unsubscribe(ws, t)\<close> leaves no subscriber of \<open>t\<close>, the entry of \<open>t\<close> is deleted.
\<close>

theorem no_empty_topic_entries:
  "((\<forall>u. active_connections m u \<noteq> Some {||})
       \<longrightarrow> active_connections (run_calls m cs) t \<noteq> Some {||})
   \<and> (subscribers_of m t |\<subseteq>| {|ws|}
       \<longrightarrow> (\<exists>m'. unsubscribe m ws t = Inr m' \<and> active_connections m' t = None))"
proof (intro conjI impI)
  assume "\<forall>u. active_connections m u \<noteq> Some {||}"
  then show "active_connections (run_calls m cs) t \<noteq> Some {||}"
    by (rule run_calls_no_empty_entry)
next
  assume "subscribers_of m t |\<subseteq>| {|ws|}"
  then have "discard_entry ws (active_connections m t) = None"
    by (auto simp: discard_entry_def subscribers_of_def split: option.splits)
  then show "\<exists>m'. unsubscribe m ws t = Inr m' \<and> active_connections m' t = None"
    by (simp add: unsubscribe_eq)
qed

theorem no_empty_topic_entries_witness:
  "active_connections one_subscriber (KInt 7) = Some {|1|}
   \<and> active_connections (run_calls one_subscriber [Unsubscribe 1 (KInt 7), Disconnect 1]) (KInt 7)
       \<noteq> Some {||}
   \<and> (\<exists>m'. unsubscribe one_subscriber 1 (KInt 7) = Inr m'
          \<and> active_connections m' (KInt 7) = None)"
proof -
  have h1: "\<forall>u. active_connections one_subscriber u \<noteq> Some {||}"
    by (simp add: one_subscriber_eq)
  have h2: "subscribers_of one_subscriber (KInt 7) |\<subseteq>| {|1|}"
    by (simp add: one_subscriber_eq subscribers_of_def)
  have h3: "active_connections one_subscriber (KInt 7) = Some {|1|}"
    by (simp add: one_subscriber_eq)
  show ?thesis
    using h1 h2 h3
      no_empty_topic_entries
        [of one_subscriber "[Unsubscribe 1 (KInt 7), Disconnect 1]" "KInt 7" 1]
    by blast
qed

text \<open>
  Claim C9.  After any sequence of \<open>connect\<close>, \<open>disconnect\<close>, \<open>subscribe\<close> and
  \<open>unsubscribe\<close> calls on a new registry, a websocket is in \<open>all_connections\<close> exactly when
  \<open>subscriptions\<close> has an entry for it.  A \<open>connect\<close> whose \<open>accept\<close> returns adds the
  websocket to both, \<open>disconnect\<close> removes it from both, and \<open>subscribe\<close> and
  \<open>unsubscribe\<close> change neither \<open>all_connections\<close> nor the keys of \<open>subscriptions\<close>.
\<close>

theorem all_connections_are_the_registered:
  "(w |\<in>| all_connections (run_calls new_manager cs)
       \<longleftrightarrow> subscriptions (run_calls new_manager cs) w \<noteq> None)
   \<and> w |\<in>| all_connections (after_call m (Connect w True))
   \<and> subscriptions (after_call m (Connect w True)) w = Some {||}
   \<and> w |\<notin>| all_connections (after_call m (Disconnect w))
   \<and> subscriptions (after_call m (Disconnect w)) w = None
   \<and> all_connections (after_call m (Subscribe v p)) = all_connections m
   \<and> dom (subscriptions (after_call m (Subscribe v p))) = dom (subscriptions m)
   \<and> all_connections (after_call m (Unsubscribe v p)) = all_connections m
   \<and> dom (subscriptions (after_call m (Unsubscribe v p))) = dom (subscriptions m)"
proof -
  have "w |\<in>| all_connections new_manager \<longleftrightarrow> subscriptions new_manager w \<noteq> None"
    by (simp add: new_manager_def)
  then have inv: "w |\<in>| all_connections (run_calls new_manager cs)
       \<longleftrightarrow> subscriptions (run_calls new_manager cs) w \<noteq> None"
    by (rule run_calls_registered)
  have sub: "dom (subscriptions (after_call m (Subscribe v p))) = dom (subscriptions m)"
    by (auto simp: after_call_eq split: option.splits if_splits)
  have unsub: "dom (subscriptions (after_call m (Unsubscribe v p))) = dom (subscriptions m)"
    by (auto simp: after_call_eq split: option.splits if_splits)
  show ?thesis
    using inv sub unsub by (simp add: after_call_eq)
qed

text \<open>
  For a connection that has an entry in the reverse index, and on which the two indices
  agree to begin with (as right after \<open>connect\<close>), calls of \<open>subscribe\<close> and
  \<open>unsubscribe\<close>, on it or on other connections, keep the entry, and \<open>subscriptions[c]\<close>
  stays the set of the topics whose entry \<open>active_connections[t]\<close> contains \<open>c\<close>.
\<close>

lemma registered_connection_consistent:
  assumes "subscriptions m c = Some ps"
    and "fset ps = {t. c |\<in>| subscribers_of m t}"
    and "list_all subscription_call ks"
  shows "\<exists>ps'. subscriptions (run_calls m ks) c = Some ps'
           \<and> fset ps' = {t. c |\<in>| subscribers_of (run_calls m ks) t}"
proof -
  have reg: "subscriptions m c \<noteq> None"
    using assms(1) by simp
  have edge: "t |\<in>| topics_of m c \<longleftrightarrow> c |\<in>| subscribers_of m t" for t
    using assms(1,2) by (auto simp: topics_of_def)
  obtain ps' where ps': "subscriptions (run_calls m ks) c = Some ps'"
    using run_calls_edge [OF reg assms(3) edge] by blast
  have "t |\<in>| ps' \<longleftrightarrow> c |\<in>| subscribers_of (run_calls m ks) t" for t
    using run_calls_edge [OF reg assms(3) edge, of t] ps' by (simp add: topics_of_def)
  then have "fset ps' = {t. c |\<in>| subscribers_of (run_calls m ks) t}"
    by auto
  with ps' show ?thesis by blast
qed

text \<open>
  Claim C3 says that for every connection \<open>c\<close> and every sequence of \<open>subscribe\<close> and
  \<open>unsubscribe\<close> calls on \<open>c\<close>, \<open>subscriptions[c]\<close> is the set of the topics whose
  forward index entry contains \<open>c\<close>.  The code breaks it in the following run:
  connection 1 connects, is disconnected, and then \<open>subscribe(1, 7)\<close> is called.  The
  call puts connection 1 into \<open>active_connections[7]\<close>, but \<open>subscriptions\<close> has no
  entry for it and gets none: the edge is in the forward index only.
\<close>

theorem subscribe_without_entry_is_one_sided:
  "subscriptions (run_calls new_manager [Connect 1 True, Disconnect 1, Subscribe 1 (KInt 7)]) 1
     = None
   \<and> active_connections
       (run_calls new_manager [Connect 1 True, Disconnect 1, Subscribe 1 (KInt 7)]) (KInt 7)
     = Some {|1|}
   \<and> 1 |\<in>| subscribers_of
              (run_calls new_manager [Connect 1 True, Disconnect 1, Subscribe 1 (KInt 7)]) (KInt 7)
   \<and> KInt 7 |\<notin>| topics_of
                   (run_calls new_manager [Connect 1 True, Disconnect 1, Subscribe 1 (KInt 7)]) 1"
  by (simp add: after_call_eq new_manager_def subscribers_of_def topics_of_def)

section \<open>Eviction after a failed send, and \<open>disconnect\<close>\<close>

lemma sorted_list_of_fset_empty: "sorted_list_of_fset {||} = []"
  by (simp add: sorted_list_of_fset.rep_eq sorted_list_of_set_empty)

lemma sorted_list_of_fset_finsert:
  "sorted_list_of_fset (finsert x S) = insort x (sorted_list_of_fset (S |-| {|x|}))"
  by (simp add: sorted_list_of_fset.rep_eq)

lemma disconnect_unregistered:
  assumes "subscriptions m c = None" and "c |\<notin>| all_connections m"
  shows "disconnect m c = Inr m"
proof -
  have "topics_of m c = {||}"
    using assms(1) by (simp add: topics_of_def)
  moreover have "(subscriptions m)(c := None) = subscriptions m"
    using assms(1) by (simp add: fun_upd_idem)
  moreover have "all_connections m |-| {|c|} = all_connections m"
    using assms(2) by auto
  ultimately show ?thesis
    by (simp add: disconnect_eq)
qed

lemma stale_subscriber_eq:
  "stale_subscriber =
     \<lparr>active_connections = [KInt 7 \<mapsto> {|1, 2|}], subscriptions = [2 \<mapsto> {|KInt 7|}],
      all_connections = {|2|}\<rparr>"
  by (simp add: stale_subscriber_def after_call_eq new_manager_def subscribers_of_def
                topics_of_def fun_eq_iff finsert_commute)

text \<open>
  Claim C2 at the state \<open>stale_subscriber\<close>.  Poll 7 has the two subscribers 1 and 2, and
  the send to 1 raises.  Connection 2 receives the event and the call returns, but the
  registry is returned unchanged: \<open>disconnect(1)\<close> finds no entry for 1 in
  \<open>subscriptions\<close>, unsubscribes nothing, and 1 is still a subscriber of poll 7 after the
  call.
\<close>

theorem stale_subscriber_survives_failed_send:
  "1 |\<in>| subscribers_of stale_subscriber (KInt 7)
   \<and> broadcast_to_poll (only_fails 1) stale_subscriber (KInt 7) JNull
       = Inr (stale_subscriber, [SendRaised 1 JNull, Sent 2 JNull])"
proof -
  have ac: "active_connections stale_subscriber (KInt 7) = Some {|1, 2|}"
    by (simp add: stale_subscriber_eq)
  have d: "disconnect stale_subscriber 1 = Inr stale_subscriber"
    by (rule disconnect_unregistered) (simp_all add: stale_subscriber_eq)
  have f: "ffilter (only_fails 1) {|1, 2|} = {|1|}"
    by (auto simp: only_fails_def)
  have failed: "sorted_list_of_fset {|1::nat|} = [1]"
    by (simp add: sorted_list_of_fset_finsert sorted_list_of_fset_empty)
  have snapshot: "sorted_list_of_fset {|1::nat, 2|} = [1, 2]"
    by (simp add: sorted_list_of_fset_finsert sorted_list_of_fset_empty)
  have "broadcast_to_poll (only_fails 1) stale_subscriber (KInt 7) JNull
          = Inr (stale_subscriber, [SendRaised 1 JNull, Sent 2 JNull])"
    unfolding broadcast_to_poll_eq ac option.case f failed snapshot disconnect_each.simps d
    by (simp add: only_fails_def)
  then show ?thesis
    by (simp add: subscribers_of_def ac)
qed


text \<open>
  The endpoint reaches such a state by itself.  A client whose sends raise sends two
  \<open>subscribe\<close> frames and goes away: the failed acknowledgement of the first disconnects
  it, the loop goes on, the second frame subscribes the connection without an entry, and
  no later \<open>disconnect\<close> removes that edge.  The connection is closed and still listed
  for poll 7.
\<close>

lemma endpoint_leaves_stale_subscriber:
  "websocket_endpoint (only_fails 1) new_manager 1 True
     [subscribe_frame 5, subscribe_frame 7, ClientDisconnect]
   = Inr (after_call new_manager (Subscribe 1 (KInt 7)),
          [SendRaised 1 (JObj [(''type'', JStr ''subscribed''), (''poll_id'', JInt 5)]),
           SendRaised 1 (JObj [(''type'', JStr ''subscribed''), (''poll_id'', JInt 7)])],
          Closed)"
  by (simp add: websocket_endpoint_def connect_def subscribe_frame_def
                handle_websocket_message_def dict_get_def subscribe_eq
                send_personal_message_def disconnect_eq only_fails_def subscribers_of_def
                topics_of_def discard_entry_def new_manager_def after_call_eq fun_eq_iff)

text \<open>
  What a broadcast does to the subscriber set in general: a subscriber whose send raises
  is removed from the entry of \<open>t\<close> exactly when \<open>t\<close> is in its reverse index entry.
\<close>

lemma broadcast_evicts_recorded_subscribers:
  assumes "broadcast_to_poll fails m t e = Inr (m', log)"
  shows "c |\<in>| subscribers_of m' t \<longleftrightarrow>
           c |\<in>| subscribers_of m t \<and> \<not> (fails c \<and> t |\<in>| topics_of m c)"
proof (cases "active_connections m t")
  case None
  with assms have "m' = m"
    by (simp add: broadcast_to_poll_eq)
  with None show ?thesis
    by (simp add: subscribers_of_def)
next
  case (Some s)
  obtain m1 where m1: "disconnect_each m (sorted_list_of_fset (ffilter fails s)) = Inr m1"
    using disconnect_each_returns by blast
  with Some assms have "m' = m1"
    by (simp add: broadcast_to_poll_eq)
  with m1 have "disconnect_each m (sorted_list_of_fset (ffilter fails s)) = Inr m'"
    by simp
  from disconnect_each_subscribers_of [OF this, of c t] Some show ?thesis
    by (auto simp: subscribers_of_def)
qed

text \<open>
  What \<open>disconnect(c)\<close> does in every state: it returns without raising, afterwards
  \<open>subscriptions\<close> has no entry for \<open>c\<close> and \<open>c\<close> is not in \<open>all_connections\<close>, and a
  second \<open>disconnect(c)\<close> returns the state unchanged.  It takes \<open>c\<close> out of the forward
  index entries of the topics in the reverse index entry of \<open>c\<close>; so when these are all
  the entries that contain \<open>c\<close>, no forward index entry contains \<open>c\<close> afterwards.
\<close>

lemma disconnect_cleans_recorded_edges:
  "\<exists>m'. disconnect m c = Inr m'
      \<and> subscriptions m' c = None
      \<and> c |\<notin>| all_connections m'
      \<and> disconnect m' c = Inr m'
      \<and> ((\<forall>u. c |\<in>| subscribers_of m u \<longrightarrow> u |\<in>| topics_of m c)
            \<longrightarrow> (\<forall>u. c |\<notin>| subscribers_of m' u))"
proof -
  obtain m' where m': "disconnect m c = Inr m'"
    using disconnect_returns by blast
  have sb: "subscriptions m' c = None"
    by (simp add: disconnect_subscriptions [OF m'])
  have al: "c |\<notin>| all_connections m'"
    by (simp add: disconnect_all_connections [OF m'])
  have again: "disconnect m' c = Inr m'"
    using sb al by (rule disconnect_unregistered)
  have gone: "(\<forall>u. c |\<in>| subscribers_of m u \<longrightarrow> u |\<in>| topics_of m c)
            \<longrightarrow> (\<forall>u. c |\<notin>| subscribers_of m' u)"
    by (auto simp: disconnect_subscribers_of [OF m'] split: if_splits)
  from m' sb al again gone show ?thesis by blast
qed

text \<open>
  Claim C4 says that after \<open>disconnect(c)\<close> the connection \<open>c\<close> is in no forward index
  entry.  The code breaks it at the state \<open>stale_subscriber\<close>, where connection 1 is in
  \<open>active_connections[7]\<close> and has no entry in \<open>subscriptions\<close>: \<open>disconnect(1)\<close> skips
  the loop over \<open>subscriptions[1]\<close>, returns the registry unchanged, and connection 1 is
  still in \<open>active_connections[7]\<close> after the call.
\<close>

theorem disconnect_leaves_stale_edge:
  "subscriptions stale_subscriber 1 = None
   \<and> disconnect stale_subscriber 1 = Inr stale_subscriber
   \<and> active_connections (after_call stale_subscriber (Disconnect 1)) (KInt 7) = Some {|1, 2|}
   \<and> 1 |\<in>| subscribers_of (after_call stale_subscriber (Disconnect 1)) (KInt 7)"
proof -
  have sb: "subscriptions stale_subscriber 1 = None"
    by (simp add: stale_subscriber_eq)
  have d: "disconnect stale_subscriber 1 = Inr stale_subscriber"
    by (rule disconnect_unregistered) (simp_all add: stale_subscriber_eq)
  have a: "after_call stale_subscriber (Disconnect 1) = stale_subscriber"
    unfolding after_call_def perform.simps d by simp
  have ac: "active_connections stale_subscriber (KInt 7) = Some {|1, 2|}"
    by (simp add: stale_subscriber_eq)
  have in7: "1 |\<in>| subscribers_of stale_subscriber (KInt 7)"
    by (simp add: subscribers_of_def stale_subscriber_eq)
  show ?thesis
    unfolding a by (intro conjI sb d ac in7)
qed

section \<open>The command handler and the receive loop\<close>

text \<open>
  Claim C7, as stated, at poll identifier 0.  The handler tests \<open>if poll_id:\<close>, and 0 is
  falsy: nothing is subscribed and no acknowledgement is sent.
\<close>

theorem subscribe_to_poll_zero_is_dropped:
  "handle_websocket_message no_failure (after_call new_manager (Connect 1 True)) 1
     (JObj [(''type'', JStr ''subscribe''), (''poll_id'', JInt 0)])
   = Inr (after_call new_manager (Connect 1 True), [])"
  by (simp add: handle_websocket_message_def dict_get_def)

text \<open>
  Claim C7, amended.  For every connection \<open>c\<close> and every integer \<open>n\<close> other than 0, the
  handler, given a \<open>subscribe\<close> message with \<open>poll_id\<close> \<open>n\<close> from \<open>c\<close>, calls
  \<open>subscribe(c, n)\<close> and then \<open>send_personal_message\<close> with the acknowledgement
  \<open>{"type": "subscribed", "poll_id": n}\<close> to \<open>c\<close>: exactly that one send is made, and
  \<open>c\<close> receives the acknowledgement unless the send raises.
\<close>

theorem subscribe_message_subscribes_and_acknowledges:
  assumes "dict_get kv ''type'' = JStr ''subscribe''"
    and "dict_get kv ''poll_id'' = JInt n"
    and "n \<noteq> 0"
  shows "\<exists>m1 m2 log.
           subscribe m c (KInt n) = Inr m1
         \<and> handle_websocket_message fails m c (JObj kv)
             = send_personal_message fails m1
                 (JObj [(''type'', JStr ''subscribed''), (''poll_id'', JInt n)]) c
         \<and> handle_websocket_message fails m c (JObj kv) = Inr (m2, log)
         \<and> attempted log = {(c, JObj [(''type'', JStr ''subscribed''), (''poll_id'', JInt n)])}
         \<and> ((c, JObj [(''type'', JStr ''subscribed''), (''poll_id'', JInt n)]) \<in> received log
               \<longleftrightarrow> \<not> fails c)"
proof -
  obtain m1 where m1: "subscribe m c (KInt n) = Inr m1"
    by (simp add: subscribe_eq)
  have h: "handle_websocket_message fails m c (JObj kv)
             = send_personal_message fails m1
                 (JObj [(''type'', JStr ''subscribed''), (''poll_id'', JInt n)]) c"
    using assms m1 by (simp add: handle_websocket_message_def)
  obtain m2 where m2: "disconnect m1 c = Inr m2"
    using disconnect_returns by blast
  show ?thesis
  proof (cases "fails c")
    case True
    with h m1 m2 show ?thesis
      by (simp add: send_personal_message_def attempted_def received_def)
  next
    case False
    with h m1 show ?thesis
      by (simp add: send_personal_message_def attempted_def received_def)
  qed
qed

theorem subscribe_message_subscribes_and_acknowledges_witness:
  "dict_get [(''type'', JStr ''subscribe''), (''poll_id'', JInt 7)] ''poll_id'' = JInt 7
   \<and> handle_websocket_message no_failure (after_call new_manager (Connect 1 True)) 1
       (JObj [(''type'', JStr ''subscribe''), (''poll_id'', JInt 7)])
     = Inr (one_subscriber, [Sent 1 (JObj [(''type'', JStr ''subscribed''), (''poll_id'', JInt 7)])])"
proof -
  have h1: "dict_get [(''type'', JStr ''subscribe''), (''poll_id'', JInt 7)] ''type''
              = JStr ''subscribe''"
    by (simp add: dict_get_def)
  have h2: "dict_get [(''type'', JStr ''subscribe''), (''poll_id'', JInt 7)] ''poll_id'' = JInt 7"
    by (simp add: dict_get_def)
  have h3: "(7::int) \<noteq> 0"
    by simp
  have s: "subscribe (after_call new_manager (Connect 1 True)) 1 (KInt 7) = Inr one_subscriber"
    by (simp add: subscribe_eq one_subscriber_def after_call_eq)
  show ?thesis
    using h2 s
      subscribe_message_subscribes_and_acknowledges
        [OF h1 h2 h3, of "after_call new_manager (Connect 1 True)" 1 no_failure]
    by (auto simp: send_personal_message_def no_failure_def)
qed

text \<open>
  Claim C6, as stated, at two malformed messages.  The JSON value \<open>5\<close> is not an object:
  \<open>data.get\<close> raises in the handler, the \<open>except Exception\<close> branch of the endpoint
  disconnects, and the loop ends with the connection closed and the registry changed.
  A \<open>subscribe\<close> whose \<open>poll_id\<close> is a list ends the same way, the list being unhashable.
\<close>

theorem malformed_message_closes_connection:
  "receive_loop no_failure (after_call new_manager (Connect 1 True)) 1 [Frame (JInt 5)]
     = Inr (new_manager, [], Closed)
   \<and> receive_loop no_failure (after_call new_manager (Connect 1 True)) 1
       [Frame (JObj [(''type'', JStr ''subscribe''), (''poll_id'', JArr [JInt 1])])]
     = Inr (new_manager, [], Closed)
   \<and> after_call new_manager (Connect 1 True) \<noteq> new_manager"
proof -
  have d: "disconnect (after_call new_manager (Connect 1 True)) 1 = Inr new_manager"
    by (simp add: disconnect_eq after_call_eq new_manager_def topics_of_def)
  have "all_connections (after_call new_manager (Connect 1 True)) \<noteq> all_connections new_manager"
    by (simp add: after_call_eq new_manager_def)
  then have c: "after_call new_manager (Connect 1 True) \<noteq> new_manager"
    by auto
  from d c show ?thesis
    by (simp add: handle_websocket_message_def dict_get_def)
qed

text \<open>
  Claim C6, amended.  For every inbound message that is a JSON object and whose \<open>type\<close>
  is not \<open>subscribe\<close>, \<open>unsubscribe\<close> or \<open>ping\<close> (a missing \<open>type\<close> included), and for
  every \<open>subscribe\<close> or \<open>unsubscribe\<close> object whose \<open>poll_id\<close> is missing or falsy, the
  message is ignored: the handler returns the registry unchanged and sends nothing, and
  the receive loop goes on with the next input as if the message had not arrived, the
  connection staying open.
\<close>

theorem unknown_message_is_ignored:
  assumes "dict_get kv ''type'' \<noteq> JStr ''ping''"
    and "dict_get kv ''type'' \<in> {JStr ''subscribe'', JStr ''unsubscribe''}
           \<longrightarrow> \<not> truthy (dict_get kv ''poll_id'')"
  shows "handle_websocket_message fails m ws (JObj kv) = Inr (m, [])
         \<and> receive_loop fails m ws (Frame (JObj kv) # rest) = receive_loop fails m ws rest
         \<and> receive_loop fails m ws [Frame (JObj kv)] = Inr (m, [], Open)"
proof -
  have h: "handle_websocket_message fails m ws (JObj kv) = Inr (m, [])"
    using assms by (auto simp: handle_websocket_message_def Let_def)
  have "receive_loop fails m ws (Frame (JObj kv) # rest) = receive_loop fails m ws rest"
    for rest
    by (cases "receive_loop fails m ws rest") (auto simp: h)
  with h show ?thesis by simp
qed

theorem unknown_message_is_ignored_witness:
  "handle_websocket_message no_failure one_subscriber 1 (JObj [(''type'', JStr ''vote'')])
     = Inr (one_subscriber, [])
   \<and> receive_loop no_failure one_subscriber 1
       [Frame (JObj [(''type'', JStr ''vote'')]), Frame (JObj [(''type'', JStr ''subscribe'')])]
     = Inr (one_subscriber, [], Open)"
proof -
  have a1: "dict_get [(''type'', JStr ''vote'')] ''type'' \<noteq> JStr ''ping''"
    by (simp add: dict_get_def)
  have a2: "dict_get [(''type'', JStr ''vote'')] ''type'' \<in> {JStr ''subscribe'', JStr ''unsubscribe''}
              \<longrightarrow> \<not> truthy (dict_get [(''type'', JStr ''vote'')] ''poll_id'')"
    by (simp add: dict_get_def)
  have b1: "dict_get [(''type'', JStr ''subscribe'')] ''type'' \<noteq> JStr ''ping''"
    by (simp add: dict_get_def)
  have b2: "dict_get [(''type'', JStr ''subscribe'')] ''type''
                \<in> {JStr ''subscribe'', JStr ''unsubscribe''}
              \<longrightarrow> \<not> truthy (dict_get [(''type'', JStr ''subscribe'')] ''poll_id'')"
    by (simp add: dict_get_def)
  show ?thesis
    using unknown_message_is_ignored
            [OF a1 a2, of no_failure one_subscriber 1
               "[Frame (JObj [(''type'', JStr ''subscribe'')])]"]
          unknown_message_is_ignored [OF b1 b2, of no_failure one_subscriber 1 "[]"]
    by simp
qed

end
